theory Spec2Isabelle
  imports Main "HOL-Library.Word" "HOL-Library.Sublist"
begin

unbundle bit_operations_syntax

section \<open>Data model\<close>

text \<open>
  A Python \<open>bytes\<close> object is a list of 8-bit words. Iterating or indexing it yields
  integers in \<open>0..255\<close>, on which \<open>^\<close> is the bitwise exclusive or.
\<close>

type_synonym byte = "8 word"
type_synonym bytes = "byte list"

text \<open>The attributes of a \<open>PURPacket\<close> object (message.py, \<open>__init__\<close>).\<close>

record packet =
  cmdBytes :: bytes
  pldBytes :: bytes
  msgBytes :: bytes

text \<open>
  The exceptions the modelled code raises. \<open>SyntaxError\<close> and \<open>ValueError\<close> carry the
  message text of the source. The two \<open>IOError\<close>s carry the values their message is
  formatted from: \<open>IOError_Problem p d\<close> is
  \<open>IOError('Problem with packet {}: {}'.format(p, d))\<close> of \<open>checkResp\<close>, and
  \<open>IOError_OnlyPackets c n\<close> is
  \<open>IOError('Only packets for {} out of {} tags where received'.format(c, n))\<close> of
  \<open>parseTagreports\<close>. \<open>IndexError\<close> is an index out of range on \<open>bytes\<close>,
  \<open>StructError\<close> is \<open>struct.error\<close>, \<open>AttributeError\<close> a missing attribute (or the
  one \<open>__init__\<close> raises itself).
\<close>

datatype error =
    SyntaxError string
  | ValueError string
  | IndexError
  | StructError
  | AttributeError
  | IOError_Problem packet string
  | IOError_OnlyPackets nat nat

text \<open>
  \<open>send\<close> returns the one response packet when there is exactly one, and the list of
  packets otherwise.
\<close>

datatype response = Single packet | Many "packet list"

section \<open>message.py: the packet codec\<close>

text \<open>
  \<open>calcChecksum\<close>: \<open>checksum = msgBytes[0]\<close>, then every further byte is xor-ed in.
  Reading \<open>msgBytes[0]\<close> of empty bytes raises \<open>IndexError\<close>.
\<close>

fun calcChecksum :: "bytes \<Rightarrow> error + byte" where
  "calcChecksum [] = Inl IndexError"
| "calcChecksum (b # bs) = Inr (foldl (XOR) b bs)"

text \<open>The start of every message, \<open>b'RFE'\<close> followed by \<open>b'\x01'\<close>.\<close>

definition RFE :: bytes where
  "RFE = [0x52, 0x46, 0x45]"

text \<open>
  \<open>createMsg\<close>. \<open>bytes([len(pldBytes)])\<close> raises \<open>ValueError\<close> when the length is
  not in \<open>range(0, 256)\<close>; the checksum is computed over everything assembled so far and
  appended.
\<close>

definition createMsg :: "bytes \<Rightarrow> bytes \<Rightarrow> error + bytes" where
  "createMsg cmd pld =
     (if 256 \<le> length pld then Inl (ValueError ''bytes must be in range(0, 256)'')
      else
        let m = RFE @ [0x01] @ cmd @ [0x02] @ [of_nat (length pld)]
                  @ (if pld \<noteq> [] then [0x03] @ pld else []) @ [0x04]
        in case calcChecksum m of
             Inl e \<Rightarrow> Inl e
           | Inr c \<Rightarrow> Inr (m @ [c]))"

text \<open>
  \<open>parseMsg\<close>, check by check in the order of the source. Slices (\<open>msgBytes[:4]\<close>,
  \<open>msgBytes[:payloadLen]\<close>) never raise and are \<open>take\<close> and \<open>drop\<close>; each index
  \<open>msgBytes[0]\<close> raises \<open>IndexError\<close> on empty bytes and is a case distinction.
\<close>

definition parseMsg :: "bytes \<Rightarrow> error + (bytes \<times> bytes)" where
  "parseMsg m =
     (if length m < 8 then Inl (SyntaxError ''Message too short'')
      else case calcChecksum m of
        Inl e \<Rightarrow> Inl e
      | Inr c \<Rightarrow>
          if c \<noteq> 0 then Inl (ValueError ''Wrong checksum'')
          else if take 4 m \<noteq> RFE @ [0x01] then Inl (SyntaxError ''Wrong message start'')
          else
            let m1 = drop 4 m; cmd = take 2 m1; m2 = drop 2 m1 in
            (case m2 of
               [] \<Rightarrow> Inl IndexError
             | lenStart # m3 \<Rightarrow>
                 if lenStart \<noteq> 0x02 then Inl (SyntaxError ''Wrong payload length start'')
                 else
                   (case m3 of
                      [] \<Rightarrow> Inl IndexError
                    | payloadLen # m4 \<Rightarrow>
                        if 0 < payloadLen then
                          (case m4 of
                             [] \<Rightarrow> Inl IndexError
                           | pldStart # m5 \<Rightarrow>
                               if pldStart \<noteq> 0x03 then Inl (SyntaxError ''Wrong payload start'')
                               else Inr (cmd, take (unat payloadLen) m5))
                        else Inr (cmd, []))))"

text \<open>
  The constructor \<open>PURPacket(cmdBytes, pldBytes, msgBytes)\<close>: non-empty command bytes
  are encoded, otherwise non-empty message bytes are parsed, otherwise it raises.
\<close>

definition PURPacket :: "bytes \<Rightarrow> bytes \<Rightarrow> bytes \<Rightarrow> error + packet" where
  "PURPacket cmd pld msg =
     (if cmd \<noteq> [] then
        (case createMsg cmd pld of
           Inl e \<Rightarrow> Inl e
         | Inr m \<Rightarrow> Inr \<lparr>cmdBytes = cmd, pldBytes = pld, msgBytes = m\<rparr>)
      else if msg \<noteq> [] then
        (case parseMsg msg of
           Inl e \<Rightarrow> Inl e
         | Inr (c, p) \<Rightarrow> Inr \<lparr>cmdBytes = c, pldBytes = p, msgBytes = msg\<rparr>)
      else Inl AttributeError)"

text \<open>
  \<open>retCodeDescr\<close>, the dictionary from return code to description, with the source's
  spelling.
\<close>

definition retCodeDescr :: "byte \<rightharpoonup> string" where
  "retCodeDescr = map_of
     [(0x00, ''Everything went fine.''),
      (0x01, ''The operation is pending, the result will be sent later on.''),
      (0x50, ''Operation is not supported on this reader.''),
      (0x51, ''Unkown error.''),
      (0x52, ''The operation could not be executed.''),
      (0x53, ''The reader could not write the value.''),
      (0x54, ''The function was called with the wrong parameter count.''),
      (0x55, ''The function was called with the wrong parameter.''),
      (0xA0, ''The reader could not reach the tag.''),
      (0xA1, ''The specified memory space is not valid.''),
      (0xA2, ''The specified memory space is locked.''),
      (0xA3, ''The tag has too less power.''),
      (0xA4, ''The specified password is wrong.'')]"

section \<open>reader.py: the command session\<close>

text \<open>
  \<open>bytes.split(sep)\<close> with a separator: the buffer is cut at the leftmost occurrence of
  \<open>sep\<close>, and the search goes on behind that occurrence; the last part is what is left.
  The result has one part more than there were occurrences. An empty separator raises
  \<open>ValueError\<close>.
\<close>

fun split_bytes :: "bytes \<Rightarrow> bytes \<Rightarrow> bytes list" where
  "split_bytes sep [] = [[]]"
| "split_bytes sep (x # xs) =
     (if sep \<noteq> [] \<and> prefix sep (x # xs)
      then [] # split_bytes sep (drop (length sep) (x # xs))
      else (case split_bytes sep xs of
              [] \<Rightarrow> [[x]]
            | part # parts \<Rightarrow> (x # part) # parts))"

definition py_split :: "bytes \<Rightarrow> bytes \<Rightarrow> error + bytes list" where
  "py_split buf sep =
     (if sep = [] then Inl (ValueError ''empty separator'') else Inr (split_bytes sep buf))"

text \<open>
  A list comprehension, or a \<open>for\<close> loop, whose body may raise: the first exception
  ends it.
\<close>

fun mapM_err :: "('a \<Rightarrow> error + 'b) \<Rightarrow> 'a list \<Rightarrow> error + 'b list" where
  "mapM_err f [] = Inr []"
| "mapM_err f (x # xs) =
     (case f x of
        Inl e \<Rightarrow> Inl e
      | Inr y \<Rightarrow> (case mapM_err f xs of Inl e \<Rightarrow> Inl e | Inr ys \<Rightarrow> Inr (y # ys)))"

text \<open>
  \<open>checkResp\<close>: a non-empty payload whose first byte is not 0 and is a key of
  \<open>retCodeDescr\<close> raises \<open>IOError\<close> with the packet and the description.
\<close>

definition checkResp :: "packet \<Rightarrow> error + unit" where
  "checkResp respPkg =
     (case pldBytes respPkg of
        [] \<Rightarrow> Inr ()
      | code # _ \<Rightarrow>
          if code \<noteq> 0 then
            (case retCodeDescr code of
               Some descr \<Rightarrow> Inl (IOError_Problem respPkg descr)
             | None \<Rightarrow> Inr ())
          else Inr ())"

text \<open>
  \<open>send\<close>, from the point where the response bytes have been read from the device:
  \<open>respBytes\<close> is what the two \<open>read\<close> calls returned together. The write to the device
  and the logging have no part in the result. \<open>start\<close> is \<open>pkg.msgBytes[:6]\<close>; the
  first part of the split is dropped (\<open>[1:]\<close>), every other part is parsed with
  \<open>start\<close> put back in front, then all packets are checked when \<open>check\<close> is set.
\<close>

definition send :: "packet \<Rightarrow> bool \<Rightarrow> bytes \<Rightarrow> error + response" where
  "send pkg check respBytes =
     (let start = take 6 (msgBytes pkg) in
      case py_split respBytes start of
        Inl e \<Rightarrow> Inl e
      | Inr parts \<Rightarrow>
          (case mapM_err (\<lambda>part. PURPacket [] [] (start @ part)) (drop 1 parts) of
             Inl e \<Rightarrow> Inl e
           | Inr respPkgs \<Rightarrow>
               (case (if check then mapM_err checkResp respPkgs else Inr []) of
                  Inl e \<Rightarrow> Inl e
                | Inr _ \<Rightarrow>
                    Inr (if length respPkgs = 1 then Single (hd respPkgs)
                         else Many respPkgs))))"

text \<open>
  \<open>struct.pack('!H', addr)\<close>: two bytes, big-endian; \<open>struct.error\<close> outside
  \<open>0..65535\<close>.
\<close>

definition pack_H :: "int \<Rightarrow> error + bytes" where
  "pack_H v =
     (if 0 \<le> v \<and> v < 65536 then Inr [of_int (v div 256), of_int (v mod 256)]
      else Inl StructError)"

text \<open>
  \<open>getParam\<close>. \<open>resp.pldBytes\<close> raises \<open>AttributeError\<close> when \<open>send\<close> returned a
  list; \<open>resp.pldBytes[1]\<close> raises \<open>IndexError\<close> on a payload of fewer than two bytes;
  \<open>resp.pldBytes[2:2+size]\<close> is a slice.
\<close>

definition getParam :: "int \<Rightarrow> bytes \<Rightarrow> error + bytes" where
  "getParam addr respBytes =
     (case pack_H addr of
        Inl e \<Rightarrow> Inl e
      | Inr a \<Rightarrow>
          (case PURPacket [0x03, 0x31] a [] of
             Inl e \<Rightarrow> Inl e
           | Inr pkg \<Rightarrow>
               (case send pkg True respBytes of
                  Inl e \<Rightarrow> Inl e
                | Inr (Many _) \<Rightarrow> Inl AttributeError
                | Inr (Single resp) \<Rightarrow>
                    if length (pldBytes resp) < 2 then Inl IndexError
                    else
                      let size = pldBytes resp ! 1
                      in Inr (take (unat size) (drop 2 (pldBytes resp))))))"

text \<open>
  One detected tag, \<open>{tagID: {'rssiI': rssiI, 'rssiQ': rssiQ}}\<close> in the source.
\<close>

record tagData =
  tagID :: string
  rssiI :: byte
  rssiQ :: byte

text \<open>\<open>'{:02X}'.format(b)\<close>: two upper-case hexadecimal digits.\<close>

definition hex02X :: "byte \<Rightarrow> string" where
  "hex02X b = [''0123456789ABCDEF'' ! (unat b div 16), ''0123456789ABCDEF'' ! (unat b mod 16)]"

text \<open>\<open>bytes.find(b)\<close>: the index of the first occurrence of the byte, or \<open>-1\<close>.\<close>

fun find_byte :: "byte \<Rightarrow> bytes \<Rightarrow> int" where
  "find_byte b [] = - 1"
| "find_byte b (x # xs) =
     (if x = b then 0
      else let i = find_byte b xs in if i < 0 then - 1 else i + 1)"

text \<open>
  The body of the inner loop of \<open>parseTagreports\<close>: one tag structure is read from the
  front of \<open>tagsBytes\<close>, and the rest is returned with it.
\<close>

definition parseTag :: "bytes \<Rightarrow> error + (tagData \<times> bytes)" where
  "parseTag tagsBytes =
     (let iStart = find_byte 0x01 tagsBytes;
          t1 = drop (nat (iStart + 1)) tagsBytes
      in case t1 of
           [] \<Rightarrow> Inl IndexError
         | idLen # t2 \<Rightarrow>
             let tid = concat (map hex02X (take (unat idLen) t2));
                 t3 = drop (unat idLen) t2
             in (case t3 of
                   [] \<Rightarrow> Inl IndexError
                 | rssiStart # t4 \<Rightarrow>
                     if rssiStart \<noteq> 0x02 then Inl (SyntaxError ''Wrong RSSI start'')
                     else
                       (case take 2 t4 of
                          [q, i] \<Rightarrow> Inr (\<lparr>tagID = tid, rssiI = i, rssiQ = q\<rparr>, drop 2 t4)
                        | _ \<Rightarrow> Inl StructError)))"

text \<open>The inner loop, \<open>for _ in range(pkgIdCount)\<close>, appending to \<open>tags\<close>.\<close>

fun tagLoop :: "nat \<Rightarrow> bytes \<Rightarrow> tagData list \<Rightarrow> error + tagData list" where
  "tagLoop 0 tagsBytes tags = Inr tags"
| "tagLoop (Suc n) tagsBytes tags =
     (case parseTag tagsBytes of
        Inl e \<Rightarrow> Inl e
      | Inr (t, rest) \<Rightarrow> tagLoop n rest (tags @ [t]))"

text \<open>
  The outer loop, \<open>for pkg in recPkgs\<close>, on the state \<open>(tags, collectedIds, idCount)\<close>.
  \<open>struct.unpack('!BB', pkg.pldBytes[1:3])\<close> raises \<open>struct.error\<close> unless the slice
  has two bytes; it assigns \<open>idCount\<close> anew in every round.
\<close>

fun pkgLoop :: "packet list \<Rightarrow> tagData list \<times> nat \<times> nat \<Rightarrow> error + (tagData list \<times> nat \<times> nat)" where
  "pkgLoop [] st = Inr st"
| "pkgLoop (pkg # pkgs) (tags, collectedIds, idCount) =
     (case take 2 (drop 1 (pldBytes pkg)) of
        [idCount', pkgIdCount] \<Rightarrow>
          (case tagLoop (unat pkgIdCount) (drop 3 (pldBytes pkg)) tags of
             Inl e \<Rightarrow> Inl e
           | Inr tags' \<Rightarrow> pkgLoop pkgs (tags', collectedIds + unat pkgIdCount, unat idCount'))
      | _ \<Rightarrow> Inl StructError)"

text \<open>
  \<open>parseTagreports\<close>: a single packet is made a list of one, the loops run from
  \<open>([], 0, 0)\<close>, and the counts are compared at the end.
\<close>

definition parseTagreports :: "response \<Rightarrow> error + tagData list" where
  "parseTagreports recPkgs =
     (case pkgLoop (case recPkgs of Single p \<Rightarrow> [p] | Many ps \<Rightarrow> ps) ([], 0, 0) of
        Inl e \<Rightarrow> Inl e
      | Inr (tags, collectedIds, idCount) \<Rightarrow>
          if collectedIds \<noteq> idCount then Inl (IOError_OnlyPackets collectedIds idCount)
          else Inr tags)"

section \<open>Vocabulary of the properties\<close>

text \<open>
  The packets of a response, in order: what \<open>send\<close> produced before it chose between
  returning the packet and returning the list.
\<close>

fun packets_of :: "response \<Rightarrow> packet list" where
  "packets_of (Single p) = [p]"
| "packets_of (Many ps) = ps"

text \<open>
  The positions at which the frames of a buffer start, when the buffer is their
  concatenation and the first one starts at \<open>k\<close>.
\<close>

fun frame_offsets :: "nat \<Rightarrow> bytes list \<Rightarrow> nat list" where
  "frame_offsets k [] = []"
| "frame_offsets k (f # fs) = k # frame_offsets (k + length f) fs"

text \<open>
  \<open>start\<close> occurs in the concatenation of the frames at frame starts only.
\<close>

definition only_at_frame_starts :: "bytes \<Rightarrow> bytes list \<Rightarrow> bool" where
  "only_at_frame_starts start frames =
     list_all (\<lambda>i. prefix start (drop i (concat frames)) \<longrightarrow> i \<in> set (frame_offsets 0 frames))
       [0 ..< length (concat frames)]"

text \<open>
  The wire layout of one well-formed tag structure with identifier \<open>tid\<close> and RSSI bytes
  \<open>q\<close> and \<open>i\<close>: the marker \<open>0x01\<close>, the length of the identifier, the identifier, the
  marker \<open>0x02\<close>, then RSSI-Q and RSSI-I. The payload of a well-formed inventory message
  is a return code, the total count, the count of this packet, and that many structures.
\<close>

definition tagStruct :: "bytes \<times> byte \<times> byte \<Rightarrow> bytes" where
  "tagStruct t = (case t of (tid, q, i) \<Rightarrow> [0x01, of_nat (length tid)] @ tid @ [0x02, q, i])"

definition tagEntry :: "bytes \<times> byte \<times> byte \<Rightarrow> tagData" where
  "tagEntry t = (case t of (tid, q, i) \<Rightarrow> \<lparr>tagID = concat (map hex02X tid), rssiI = i, rssiQ = q\<rparr>)"

definition inventoryPayload :: "byte \<times> byte \<times> (bytes \<times> byte \<times> byte) list \<Rightarrow> bytes" where
  "inventoryPayload s =
     (case s of (rc, idc, ts) \<Rightarrow> [rc, idc, of_nat (length ts)] @ concat (map tagStruct ts))"

section \<open>Properties of the codec\<close>

subsection \<open>The checksum\<close>

lemma foldl_xor_shift: "foldl (XOR) (a::byte) bs = a XOR foldl (XOR) 0 bs"
proof (induction bs arbitrary: a)
  case Nil
  show ?case by simp
next
  case (Cons b bs)
  have "foldl (XOR) a (b # bs) = (a XOR b) XOR foldl (XOR) 0 bs"
    using Cons.IH [of "a XOR b"] by simp
  also have "\<dots> = a XOR (b XOR foldl (XOR) 0 bs)"
    by (simp add: xor.assoc)
  also have "b XOR foldl (XOR) 0 bs = foldl (XOR) 0 (b # bs)"
    using Cons.IH [of b] by simp
  finally show ?case .
qed

lemma calcChecksum_xor_all: "m \<noteq> [] \<Longrightarrow> calcChecksum m = Inr (foldl (XOR) 0 m)"
  by (cases m) (simp_all add: foldl_xor_shift [symmetric])

lemma xor_all_snoc_self: "foldl (XOR) (0::byte) (m @ [foldl (XOR) 0 m]) = 0"
  by simp

lemma unat_length_byte: "n < 256 \<Longrightarrow> unat (of_nat n :: byte) = n"
  by (simp add: unat_of_nat)

lemma length_byte_pos: "n < 256 \<Longrightarrow> (0 < (of_nat n :: byte)) = (0 < n)"
  by (metis unat_length_byte word_greater_zero_iff unat_eq_zero not_gr_zero)

lemma cmd_two: "length (cmd::bytes) = 2 \<Longrightarrow> \<exists>c1 c2. cmd = [c1, c2]"
  by (cases cmd; cases "tl cmd"; auto)

subsection \<open>What \<open>createMsg\<close> builds\<close>

lemma createMsg_eq:
  assumes "length pld \<le> 255"
  shows "createMsg cmd pld =
           Inr (RFE @ [0x01] @ cmd @ [0x02, of_nat (length pld)]
                  @ (if pld \<noteq> [] then 0x03 # pld else [])
                  @ [0x04, foldl (XOR) 0 (RFE @ [0x01] @ cmd @ [0x02, of_nat (length pld)]
                                            @ (if pld \<noteq> [] then 0x03 # pld else []) @ [0x04])])"
proof -
  have "RFE @ [0x01] @ cmd @ [0x02] @ [of_nat (length pld)]
          @ (if pld \<noteq> [] then [0x03] @ pld else []) @ [0x04] \<noteq> []"
    by (simp add: RFE_def)
  from calcChecksum_xor_all [OF this] assms show ?thesis
    by (simp add: createMsg_def Let_def)
qed

text \<open>
  C8. For a command of two bytes and a payload of at most 255 bytes, \<open>createMsg\<close> returns
  the bytes \<open>R F E\<close>, \<open>0x01\<close>, the command, \<open>0x02\<close>, the length byte, then \<open>0x03\<close> and
  the payload exactly when the payload is not empty, then \<open>0x04\<close> and one checksum byte;
  the exclusive or of all bytes of that frame is 0, and the length byte reads as the
  length of the payload. For the command \<open>01 01\<close> and the empty payload the frame is
  \<open>52 46 45 01 01 01 02 00 04 56\<close>.
\<close>

theorem createMsg_frame_checksum:
  assumes "length cmd = 2" and "length pld \<le> 255"
  shows "(\<exists>cs. createMsg cmd pld =
                 Inr ([0x52, 0x46, 0x45, 0x01] @ cmd @ [0x02, of_nat (length pld)]
                        @ (if pld \<noteq> [] then 0x03 # pld else []) @ [0x04, cs])
               \<and> foldl (XOR) 0 ([0x52, 0x46, 0x45, 0x01] @ cmd @ [0x02, of_nat (length pld)]
                        @ (if pld \<noteq> [] then 0x03 # pld else []) @ [0x04, cs]) = 0
               \<and> calcChecksum ([0x52, 0x46, 0x45, 0x01] @ cmd @ [0x02, of_nat (length pld)]
                        @ (if pld \<noteq> [] then 0x03 # pld else []) @ [0x04, cs]) = Inr 0)
         \<and> unat (of_nat (length pld) :: byte) = length pld
         \<and> createMsg [0x01, 0x01] [] = Inr [0x52, 0x46, 0x45, 0x01, 0x01, 0x01, 0x02, 0x00, 0x04, 0x56]"
proof -
  let ?body = "[0x52, 0x46, 0x45, 0x01] @ cmd @ [0x02, of_nat (length pld)]
                 @ (if pld \<noteq> [] then 0x03 # pld else []) @ [0x04 :: byte]"
  let ?cs = "foldl (XOR) 0 ?body"
  have frame: "createMsg cmd pld = Inr (?body @ [?cs])"
    using createMsg_eq [OF assms(2), of cmd] by (simp add: RFE_def)
  have zero: "foldl (XOR) 0 (?body @ [?cs]) = 0"
    by (rule xor_all_snoc_self)
  have "?body @ [?cs] \<noteq> []" by simp
  from calcChecksum_xor_all [OF this] zero
  have chk: "calcChecksum (?body @ [?cs]) = Inr 0" by simp
  have ex: "\<exists>cs. createMsg cmd pld =
                 Inr ([0x52, 0x46, 0x45, 0x01] @ cmd @ [0x02, of_nat (length pld)]
                        @ (if pld \<noteq> [] then 0x03 # pld else []) @ [0x04, cs])
               \<and> foldl (XOR) 0 ([0x52, 0x46, 0x45, 0x01] @ cmd @ [0x02, of_nat (length pld)]
                        @ (if pld \<noteq> [] then 0x03 # pld else []) @ [0x04, cs]) = 0
               \<and> calcChecksum ([0x52, 0x46, 0x45, 0x01] @ cmd @ [0x02, of_nat (length pld)]
                        @ (if pld \<noteq> [] then 0x03 # pld else []) @ [0x04, cs]) = Inr 0"
    using frame zero chk by (intro exI [of _ ?cs]) simp
  have len: "unat (of_nat (length pld) :: byte) = length pld"
    using assms(2) by (simp add: unat_length_byte)
  have vec: "createMsg [0x01, 0x01] [] = Inr [0x52, 0x46, 0x45, 0x01, 0x01, 0x01, 0x02, 0x00, 0x04, 0x56]"
    by (simp add: createMsg_def RFE_def)
  from ex len vec show ?thesis by blast
qed

theorem createMsg_frame_checksum_witness:
  "length [0x50, 0x01 :: byte] = 2 \<and> length [0x00, 0xAA :: byte] \<le> 255
   \<and> createMsg [0x50, 0x01] [0x00, 0xAA] =
       Inr [0x52, 0x46, 0x45, 0x01, 0x50, 0x01, 0x02, 0x02, 0x03, 0x00, 0xAA, 0x04, 0xAC]
   \<and> foldl (XOR) (0::byte)
       [0x52, 0x46, 0x45, 0x01, 0x50, 0x01, 0x02, 0x02, 0x03, 0x00, 0xAA, 0x04, 0xAC] = 0"
  using createMsg_frame_checksum [of "[0x50, 0x01]" "[0x00, 0xAA]"]
  by (simp add: createMsg_def RFE_def)

text \<open>
  C1. For a command of two bytes and a payload of at most 255 bytes, \<open>createMsg\<close> returns
  a frame, and \<open>parseMsg\<close> of that frame returns the command and the payload.
\<close>

theorem createMsg_parseMsg_roundtrip:
  assumes "length cmd = 2" and "length pld \<le> 255"
  shows "\<exists>m. createMsg cmd pld = Inr m \<and> parseMsg m = Inr (cmd, pld)"
proof -
  obtain c1 c2 where cmd: "cmd = [c1, c2]"
    using cmd_two [OF assms(1)] by blast
  have n: "length pld < 256" using assms(2) by simp
  show ?thesis
  proof (cases "pld = []")
    case True
    then show ?thesis
      by (simp add: createMsg_def parseMsg_def RFE_def cmd Let_def)
  next
    case False
    then have pos: "0 < (of_nat (length pld) :: byte)"
      using length_byte_pos [OF n] by simp
    show ?thesis using False n pos
      by (simp add: createMsg_def parseMsg_def RFE_def cmd Let_def unat_length_byte)
  qed
qed

theorem createMsg_parseMsg_roundtrip_witness:
  "length [0x03, 0x31 :: byte] = 2 \<and> length [0x00, 0x28 :: byte] \<le> 255
   \<and> (\<exists>m. createMsg [0x03, 0x31] [0x00, 0x28] = Inr m
          \<and> parseMsg m = Inr ([0x03, 0x31], [0x00, 0x28]))"
  using createMsg_parseMsg_roundtrip [of "[0x03, 0x31]" "[0x00, 0x28]"] by simp

subsection \<open>What \<open>parseMsg\<close> checks\<close>

text \<open>
  On eight bytes or more, \<open>parseMsg\<close> is a chain of tests on the bytes at fixed
  positions. The case of exactly eight bytes with a length byte that is not 0 is the one
  where the source reads \<open>msgBytes[0]\<close> of empty bytes.
\<close>

lemma parseMsg_unfold:
  assumes "8 \<le> length m"
  shows "parseMsg m =
     (if foldl (XOR) 0 m \<noteq> 0 then Inl (ValueError ''Wrong checksum'')
      else if take 4 m \<noteq> [0x52, 0x46, 0x45, 0x01] then Inl (SyntaxError ''Wrong message start'')
      else if m ! 6 \<noteq> 0x02 then Inl (SyntaxError ''Wrong payload length start'')
      else if m ! 7 = 0 then Inr (take 2 (drop 4 m), [])
      else if length m = 8 then Inl IndexError
      else if m ! 8 \<noteq> 0x03 then Inl (SyntaxError ''Wrong payload start'')
      else Inr (take 2 (drop 4 m), take (unat (m ! 7)) (drop 9 m)))"
proof -
  have ne: "m \<noteq> []" using assms by auto
  have d6: "drop 6 m = m ! 6 # drop 7 m"
    using assms Cons_nth_drop_Suc [of 6 m] by simp
  have d7: "drop 7 m = m ! 7 # drop 8 m"
    using assms Cons_nth_drop_Suc [of 7 m] by simp
  have pos: "(0 < m ! 7) = (m ! 7 \<noteq> 0)"
    by (simp add: word_greater_zero_iff)
  show ?thesis
  proof (cases "length m = 8")
    case True
    then have "drop 8 m = []" by simp
    then show ?thesis using assms True
      by (simp add: parseMsg_def Let_def d6 d7 pos RFE_def calcChecksum_xor_all [OF ne])
  next
    case False
    then have "drop 8 m = m ! 8 # drop 9 m"
      using assms Cons_nth_drop_Suc [of 8 m] by simp
    then show ?thesis using assms False
      by (simp add: parseMsg_def Let_def d6 d7 pos RFE_def calcChecksum_xor_all [OF ne])
  qed
qed

lemma parseMsg_short: "length m < 8 \<Longrightarrow> parseMsg m = Inl (SyntaxError ''Message too short'')"
  by (simp add: parseMsg_def)

text \<open>
  C9. \<open>parseMsg\<close> fails at the first check that does not hold, in this order: fewer than
  eight bytes is \<open>SyntaxError('Message too short')\<close> whatever the bytes are; on eight
  bytes or more, an exclusive or of all bytes other than 0 is
  \<open>ValueError('Wrong checksum')\<close> whatever the start is; then a wrong start is
  \<open>SyntaxError('Wrong message start')\<close> whatever the length marker is; then a wrong
  length marker is \<open>SyntaxError('Wrong payload length start')\<close> whatever follows; then,
  for a length byte other than 0 with a ninth byte present, a wrong payload marker is
  \<open>SyntaxError('Wrong payload start')\<close>.
\<close>

theorem parseMsg_validation_order:
  "(length m < 8 \<longrightarrow> parseMsg m = Inl (SyntaxError ''Message too short''))
   \<and> (8 \<le> length m \<and> foldl (XOR) 0 m \<noteq> 0 \<longrightarrow>
        parseMsg m = Inl (ValueError ''Wrong checksum''))
   \<and> (8 \<le> length m \<and> foldl (XOR) 0 m = 0 \<and> take 4 m \<noteq> [0x52, 0x46, 0x45, 0x01] \<longrightarrow>
        parseMsg m = Inl (SyntaxError ''Wrong message start''))
   \<and> (8 \<le> length m \<and> foldl (XOR) 0 m = 0 \<and> take 4 m = [0x52, 0x46, 0x45, 0x01]
        \<and> m ! 6 \<noteq> 0x02 \<longrightarrow>
        parseMsg m = Inl (SyntaxError ''Wrong payload length start''))
   \<and> (9 \<le> length m \<and> foldl (XOR) 0 m = 0 \<and> take 4 m = [0x52, 0x46, 0x45, 0x01]
        \<and> m ! 6 = 0x02 \<and> m ! 7 \<noteq> 0 \<and> m ! 8 \<noteq> 0x03 \<longrightarrow>
        parseMsg m = Inl (SyntaxError ''Wrong payload start''))"
proof (cases "length m < 8")
  case True
  then show ?thesis by (simp add: parseMsg_short)
next
  case False
  then have len: "8 \<le> length m" by simp
  show ?thesis using len by (simp add: parseMsg_unfold [OF len])
qed

text \<open>
  The five cases at five inputs: seven bytes of a good frame; eight bytes with a wrong
  checksum and a wrong start; a right checksum with a wrong start and a wrong length
  marker; a right start with a wrong length marker and a wrong payload marker; a wrong
  payload marker alone.
\<close>

theorem parseMsg_validation_order_witness:
  "parseMsg [0x52, 0x46, 0x45, 0x01, 0x01, 0x01, 0x02] = Inl (SyntaxError ''Message too short'')
   \<and> parseMsg [0x00, 0x46, 0x45, 0x01, 0x01, 0x01, 0x07, 0x01] = Inl (ValueError ''Wrong checksum'')
   \<and> parseMsg [0x58, 0x46, 0x45, 0x01, 0x01, 0x01, 0x07, 0x01, 0x09, 0x55] =
        Inl (SyntaxError ''Wrong message start'')
   \<and> parseMsg [0x52, 0x46, 0x45, 0x01, 0x01, 0x01, 0x07, 0x01, 0x09, 0x5F] =
        Inl (SyntaxError ''Wrong payload length start'')
   \<and> parseMsg [0x52, 0x46, 0x45, 0x01, 0x01, 0x01, 0x02, 0x01, 0x09, 0x5A] =
        Inl (SyntaxError ''Wrong payload start'')"
proof -
  have a: "parseMsg [0x52, 0x46, 0x45, 0x01, 0x01, 0x01, 0x02] = Inl (SyntaxError ''Message too short'')"
    using parseMsg_validation_order [of "[0x52, 0x46, 0x45, 0x01, 0x01, 0x01, 0x02]"] by simp
  have b: "parseMsg [0x00, 0x46, 0x45, 0x01, 0x01, 0x01, 0x07, 0x01] = Inl (ValueError ''Wrong checksum'')"
    using parseMsg_validation_order [of "[0x00, 0x46, 0x45, 0x01, 0x01, 0x01, 0x07, 0x01]"] by simp
  have c: "parseMsg [0x58, 0x46, 0x45, 0x01, 0x01, 0x01, 0x07, 0x01, 0x09, 0x55] =
        Inl (SyntaxError ''Wrong message start'')"
    using parseMsg_validation_order [of "[0x58, 0x46, 0x45, 0x01, 0x01, 0x01, 0x07, 0x01, 0x09, 0x55]"]
    by simp
  have d: "parseMsg [0x52, 0x46, 0x45, 0x01, 0x01, 0x01, 0x07, 0x01, 0x09, 0x5F] =
        Inl (SyntaxError ''Wrong payload length start'')"
    using parseMsg_validation_order [of "[0x52, 0x46, 0x45, 0x01, 0x01, 0x01, 0x07, 0x01, 0x09, 0x5F]"]
    by simp
  have e: "parseMsg [0x52, 0x46, 0x45, 0x01, 0x01, 0x01, 0x02, 0x01, 0x09, 0x5A] =
        Inl (SyntaxError ''Wrong payload start'')"
    using parseMsg_validation_order [of "[0x52, 0x46, 0x45, 0x01, 0x01, 0x01, 0x02, 0x01, 0x09, 0x5A]"]
    by simp
  from a b c d e show ?thesis by blast
qed

text \<open>
  C5, as the code has it. When \<open>parseMsg\<close> returns a command and a payload, the input
  has at least eight bytes and the payload is the slice \<open>msgBytes[9:9+payloadLen]\<close> of
  it, where \<open>payloadLen\<close> is the byte at position 7. As integers, the length of the
  payload is the smaller of \<open>payloadLen\<close> and \<open>max(0, len(msgBytes) - 9)\<close>, the number
  of bytes the input has from position 9 on. It is \<open>payloadLen\<close> when the input has at
  least \<open>9 + payloadLen\<close> bytes, and never more.
\<close>

theorem parseMsg_payload_slice:
  assumes "parseMsg m = Inr (cmd, pld)"
  shows "pld = take (unat (m ! 7)) (drop 9 m)
         \<and> int (length pld) = min (int (unat (m ! 7))) (max 0 (int (length m) - 9))
         \<and> length pld \<le> unat (m ! 7)
         \<and> (9 + unat (m ! 7) \<le> length m \<longrightarrow> length pld = unat (m ! 7))
         \<and> 8 \<le> length m"
proof -
  have len: "8 \<le> length m"
    using assms by (cases "length m < 8") (simp_all add: parseMsg_short)
  define n where "n = unat (m ! 7)"
  have slice: "pld = take n (drop 9 m)"
    using assms unfolding parseMsg_unfold [OF len] n_def
    by (auto split: if_splits)
  then have "length pld = min n (length m - 9)" by simp
  then have "int (length pld) = min (int n) (max 0 (int (length m) - 9))"
    by (simp add: min_def max_def) linarith
  with slice len
  have "pld = take n (drop 9 m)
         \<and> int (length pld) = min (int n) (max 0 (int (length m) - 9))
         \<and> length pld \<le> n
         \<and> (9 + n \<le> length m \<longrightarrow> length pld = n)
         \<and> 8 \<le> length m"
    by simp
  then show ?thesis unfolding n_def .
qed

text \<open>
  Two accepted inputs: a frame of thirteen bytes that declares two payload bytes and
  has them, and the eight bytes \<open>52 46 45 01 52 00 02 00\<close>, where nothing follows
  position 7 and the payload has length \<open>min(0, max(0, 8 - 9)) = 0\<close>.
\<close>

theorem parseMsg_payload_slice_witness:
  "parseMsg [0x52, 0x46, 0x45, 0x01, 0x03, 0x31, 0x02, 0x02, 0x03, 0xAA, 0xCC, 0x04, 0x03]
     = Inr ([0x03, 0x31], [0xAA, 0xCC])
   \<and> [0xAA, 0xCC :: byte] = take (unat (0x02 :: byte)) [0xAA, 0xCC, 0x04, 0x03]
   \<and> int (length [0xAA, 0xCC :: byte]) = min (int (unat (0x02 :: byte))) (max 0 (13 - 9))
   \<and> length [0xAA, 0xCC :: byte] = unat (0x02 :: byte)
   \<and> parseMsg [0x52, 0x46, 0x45, 0x01, 0x52, 0x00, 0x02, 0x00] = Inr ([0x52, 0x00], [])
   \<and> int (length ([] :: bytes)) = min (int (unat (0x00 :: byte))) (max 0 (8 - 9))"
proof -
  have p: "parseMsg [0x52, 0x46, 0x45, 0x01, 0x03, 0x31, 0x02, 0x02, 0x03, 0xAA, 0xCC, 0x04, 0x03]
     = Inr ([0x03, 0x31], [0xAA, 0xCC])"
    by (simp add: parseMsg_def RFE_def)
  have q: "parseMsg [0x52, 0x46, 0x45, 0x01, 0x52, 0x00, 0x02, 0x00] = Inr ([0x52, 0x00], [])"
    by (simp add: parseMsg_def RFE_def)
  from parseMsg_payload_slice [OF p] parseMsg_payload_slice [OF q] p q
  show ?thesis by simp
qed

text \<open>
  C5 as it is written fails: these eleven bytes have exclusive or 0, the right start and
  markers, and declare a payload of five bytes; \<open>parseMsg\<close> returns the two bytes that
  are left as payload.
\<close>

theorem parseMsg_declared_length_counterexample:
  "parseMsg [0x52, 0x46, 0x45, 0x01, 0x03, 0x31, 0x02, 0x05, 0x03, 0xAA, 0xCC]
     = Inr ([0x03, 0x31], [0xAA, 0xCC])
   \<and> [0x52, 0x46, 0x45, 0x01, 0x03, 0x31, 0x02, 0x05, 0x03, 0xAA, 0xCC] ! 7 = (0x05 :: byte)
   \<and> length [0xAA, 0xCC :: byte] \<noteq> unat (0x05 :: byte)"
  by (simp add: parseMsg_def RFE_def)

text \<open>
  C6 fails on the code. These eight bytes pass the length check, have exclusive or 0,
  the right start and the right length marker, and declare a payload of one byte;
  nothing is left for the payload marker, and \<open>msgBytes[0]\<close> raises \<open>IndexError\<close>.
\<close>

theorem parseMsg_IndexError:
  "parseMsg [0x52, 0x46, 0x45, 0x01, 0x52, 0x01, 0x02, 0x01] = Inl IndexError"
  by (simp add: parseMsg_def RFE_def)

text \<open>
  C10. \<open>parseMsg\<close> does not look for the checksum marker, for an empty payload and for
  a payload alike. Any input of at least eight bytes with exclusive or 0, the right
  start, the right length marker and length byte 0 is parsed to its command and the
  empty payload, whatever follows the length byte. Any input of at least nine bytes
  with exclusive or 0, the right start, the right length marker, a length byte other
  than 0 and the payload marker is parsed to its command and the slice
  \<open>msgBytes[9:9+payloadLen]\<close>, whatever follows the payload marker. So the eight bytes
  \<open>52 46 45 01 52 00 02 00\<close>, with no byte \<open>0x03\<close> and no byte \<open>0x04\<close> among them, are
  parsed to the command \<open>52 00\<close> and the empty payload; the nine bytes
  \<open>52 46 45 01 50 00 02 01 03\<close> and the ten bytes \<open>52 46 45 01 FA 00 02 01 03 AA\<close>,
  with no byte \<open>0x04\<close> among them, are accepted too; and every frame \<open>createMsg\<close>
  returns for a command of two bytes has at least ten bytes.
\<close>

theorem parseMsg_accepts_eight_bytes:
  "(8 \<le> length m \<and> foldl (XOR) 0 m = 0 \<and> take 4 m = [0x52, 0x46, 0x45, 0x01]
      \<and> m ! 6 = 0x02 \<and> m ! 7 = 0 \<longrightarrow> parseMsg m = Inr ([m ! 4, m ! 5], []))
   \<and> (9 \<le> length m \<and> foldl (XOR) 0 m = 0 \<and> take 4 m = [0x52, 0x46, 0x45, 0x01]
      \<and> m ! 6 = 0x02 \<and> m ! 7 \<noteq> 0 \<and> m ! 8 = 0x03 \<longrightarrow>
        parseMsg m = Inr ([m ! 4, m ! 5], take (unat (m ! 7)) (drop 9 m)))
   \<and> parseMsg [0x52, 0x46, 0x45, 0x01, 0x52, 0x00, 0x02, 0x00] = Inr ([0x52, 0x00], [])
   \<and> 0x03 \<notin> set [0x52, 0x46, 0x45, 0x01, 0x52, 0x00, 0x02, 0x00 :: byte]
   \<and> 0x04 \<notin> set [0x52, 0x46, 0x45, 0x01, 0x52, 0x00, 0x02, 0x00 :: byte]
   \<and> parseMsg [0x52, 0x46, 0x45, 0x01, 0x50, 0x00, 0x02, 0x01, 0x03] = Inr ([0x50, 0x00], [])
   \<and> 0x04 \<notin> set [0x52, 0x46, 0x45, 0x01, 0x50, 0x00, 0x02, 0x01, 0x03 :: byte]
   \<and> parseMsg [0x52, 0x46, 0x45, 0x01, 0xFA, 0x00, 0x02, 0x01, 0x03, 0xAA] = Inr ([0xFA, 0x00], [0xAA])
   \<and> 0x04 \<notin> set [0x52, 0x46, 0x45, 0x01, 0xFA, 0x00, 0x02, 0x01, 0x03, 0xAA :: byte]
   \<and> (length cmd = 2 \<and> createMsg cmd pld = Inr frame \<longrightarrow> 10 \<le> length frame)"
proof -
  have cmd45: "take 2 (drop 4 m) = [m ! 4, m ! 5]" if "8 \<le> length m"
  proof -
    have "drop 4 m = m ! 4 # drop 5 m" "drop 5 m = m ! 5 # drop 6 m"
      using that Cons_nth_drop_Suc [of 4 m] Cons_nth_drop_Suc [of 5 m] by simp_all
    then show ?thesis by simp
  qed
  have gen: "8 \<le> length m \<and> foldl (XOR) 0 m = 0 \<and> take 4 m = [0x52, 0x46, 0x45, 0x01]
      \<and> m ! 6 = 0x02 \<and> m ! 7 = 0 \<longrightarrow> parseMsg m = Inr ([m ! 4, m ! 5], [])"
  proof (intro impI, elim conjE)
    assume len: "8 \<le> length m" and rest: "foldl (XOR) 0 m = 0"
      "take 4 m = [0x52, 0x46, 0x45, 0x01]" "m ! 6 = 0x02" "m ! 7 = 0"
    show "parseMsg m = Inr ([m ! 4, m ! 5], [])"
      using rest cmd45 [OF len] by (simp add: parseMsg_unfold [OF len])
  qed
  have gen_pld: "9 \<le> length m \<and> foldl (XOR) 0 m = 0 \<and> take 4 m = [0x52, 0x46, 0x45, 0x01]
      \<and> m ! 6 = 0x02 \<and> m ! 7 \<noteq> 0 \<and> m ! 8 = 0x03 \<longrightarrow>
        parseMsg m = Inr ([m ! 4, m ! 5], take (unat (m ! 7)) (drop 9 m))"
  proof (intro impI, elim conjE)
    assume len9: "9 \<le> length m" and rest: "foldl (XOR) 0 m = 0"
      "take 4 m = [0x52, 0x46, 0x45, 0x01]" "m ! 6 = 0x02" "m ! 7 \<noteq> 0" "m ! 8 = 0x03"
    have len: "8 \<le> length m" and ne8: "length m \<noteq> 8" using len9 by simp_all
    show "parseMsg m = Inr ([m ! 4, m ! 5], take (unat (m ! 7)) (drop 9 m))"
      using rest ne8 cmd45 [OF len] by (simp add: parseMsg_unfold [OF len])
  qed
  have conc: "parseMsg [0x52, 0x46, 0x45, 0x01, 0x52, 0x00, 0x02, 0x00] = Inr ([0x52, 0x00], [])"
    by (simp add: parseMsg_def RFE_def)
  have conc9: "parseMsg [0x52, 0x46, 0x45, 0x01, 0x50, 0x00, 0x02, 0x01, 0x03] = Inr ([0x50, 0x00], [])"
    by (simp add: parseMsg_def RFE_def)
  have conc10: "parseMsg [0x52, 0x46, 0x45, 0x01, 0xFA, 0x00, 0x02, 0x01, 0x03, 0xAA]
                  = Inr ([0xFA, 0x00], [0xAA])"
    by (simp add: parseMsg_def RFE_def)
  have short: "length cmd = 2 \<and> createMsg cmd pld = Inr frame \<longrightarrow> 10 \<le> length frame"
    by (auto simp: createMsg_def Let_def RFE_def split: if_splits sum.splits)
  from gen gen_pld conc conc9 conc10 short show ?thesis by simp
qed

theorem parseMsg_accepts_eight_bytes_witness:
  "8 \<le> length [0x52, 0x46, 0x45, 0x01, 0x52, 0x00, 0x02, 0x00 :: byte]
   \<and> parseMsg [0x52, 0x46, 0x45, 0x01, 0x52, 0x00, 0x02, 0x00] = Inr ([0x52, 0x00], [])
   \<and> 9 \<le> length [0x52, 0x46, 0x45, 0x01, 0xFA, 0x00, 0x02, 0x02, 0x03, 0xAA, 0x17, 0x14 :: byte]
   \<and> parseMsg [0x52, 0x46, 0x45, 0x01, 0xFA, 0x00, 0x02, 0x02, 0x03, 0xAA, 0x17, 0x14]
        = Inr ([0xFA, 0x00], [0xAA, 0x17])
   \<and> length [0x01, 0x01 :: byte] = 2
   \<and> createMsg [0x01, 0x01] [] = Inr [0x52, 0x46, 0x45, 0x01, 0x01, 0x01, 0x02, 0x00, 0x04, 0x56]
   \<and> 10 \<le> length [0x52, 0x46, 0x45, 0x01, 0x01, 0x01, 0x02, 0x00, 0x04, 0x56 :: byte]"
proof -
  have c: "createMsg [0x01, 0x01] [] = Inr [0x52, 0x46, 0x45, 0x01, 0x01, 0x01, 0x02, 0x00, 0x04, 0x56]"
    by (simp add: createMsg_def RFE_def)
  from parseMsg_accepts_eight_bytes
         [of "[0x52, 0x46, 0x45, 0x01, 0x52, 0x00, 0x02, 0x00]" "[0x01, 0x01]" "[]"
             "[0x52, 0x46, 0x45, 0x01, 0x01, 0x01, 0x02, 0x00, 0x04, 0x56]"]
       parseMsg_accepts_eight_bytes
         [of "[0x52, 0x46, 0x45, 0x01, 0xFA, 0x00, 0x02, 0x02, 0x03, 0xAA, 0x17, 0x14]"
             "[0x01, 0x01]" "[]"
             "[0x52, 0x46, 0x45, 0x01, 0x01, 0x01, 0x02, 0x00, 0x04, 0x56]"] c
  show ?thesis by simp
qed

section \<open>Properties of the command session\<close>

subsection \<open>Return codes\<close>

text \<open>
  The return codes on which \<open>checkResp\<close> raises: the keys of \<open>retCodeDescr\<close> other
  than 0.
\<close>

lemma retCodeDescr_raising:
  "(code \<noteq> 0 \<and> retCodeDescr code \<noteq> None) =
     (code \<in> {0x01, 0x50, 0x51, 0x52, 0x53, 0x54, 0x55, 0xA0, 0xA1, 0xA2, 0xA3, 0xA4})"
  by (auto simp: retCodeDescr_def)

lemma checkResp_eq:
  "checkResp p =
     (if pldBytes p \<noteq> []
         \<and> hd (pldBytes p) \<in> {0x01, 0x50, 0x51, 0x52, 0x53, 0x54, 0x55, 0xA0, 0xA1, 0xA2, 0xA3, 0xA4}
      then Inl (IOError_Problem p (the (retCodeDescr (hd (pldBytes p)))))
      else Inr ())"
proof (cases "pldBytes p")
  case Nil
  then show ?thesis by (simp add: checkResp_def)
next
  case (Cons code rest)
  show ?thesis
    using retCodeDescr_raising [of code]
    by (cases "retCodeDescr code") (auto simp: checkResp_def Cons)
qed

lemma mapM_checkResp:
  "mapM_err checkResp ps =
     (case find (\<lambda>p. pldBytes p \<noteq> []
                   \<and> hd (pldBytes p) \<in> {0x01, 0x50, 0x51, 0x52, 0x53, 0x54, 0x55, 0xA0, 0xA1, 0xA2, 0xA3, 0xA4}) ps of
        None \<Rightarrow> Inr (map (\<lambda>_. ()) ps)
      | Some p \<Rightarrow> Inl (IOError_Problem p (the (retCodeDescr (hd (pldBytes p))))))"
proof (induction ps)
  case Nil
  show ?case by simp
next
  case (Cons p ps)
  show ?case
    unfolding mapM_err.simps find.simps Cons.IH checkResp_eq [of p]
    by (simp split: option.splits)
qed

lemma packets_of_result:
  "packets_of (if length ps = 1 then Single (hd ps) else Many ps) = ps"
  by (cases ps) (auto simp: length_Suc_conv)

lemma parseMsg_no_IOError: "parseMsg m \<noteq> Inl (IOError_Problem p d)"
  by (auto simp: parseMsg_def Let_def split: if_splits sum.splits list.splits
           elim!: calcChecksum.elims)

lemma PURPacket_parse_no_IOError: "PURPacket [] [] m \<noteq> Inl (IOError_Problem p d)"
  using parseMsg_no_IOError [of m p d]
  by (auto simp: PURPacket_def split: sum.splits)

lemma mapM_err_no_error:
  "(\<And>x. f x \<noteq> Inl e) \<Longrightarrow> mapM_err f xs \<noteq> Inl e"
  by (induction xs) (auto split: sum.splits)

text \<open>
  C3, as the code has it. With \<open>check\<close> set, \<open>send\<close> raises what it raises without
  \<open>check\<close>, and otherwise raises \<open>IOError\<close> for the first response packet whose payload
  is not empty and begins with a key of \<open>retCodeDescr\<close> other than 0, which are
  \<open>0x01\<close>, \<open>0x50\<close> to \<open>0x55\<close> and \<open>0xA0\<close> to \<open>0xA4\<close>, with the description of that
  code; when there is no such packet it returns what it returns without \<open>check\<close>.
  Without \<open>check\<close> it never raises that error. The description of \<open>0x52\<close> is
  \<open>The operation could not be executed.\<close>
\<close>

theorem send_return_code_gating:
  "send pkg True respBytes =
     (case send pkg False respBytes of
        Inl e \<Rightarrow> Inl e
      | Inr r \<Rightarrow>
          (case find (\<lambda>p. pldBytes p \<noteq> []
                        \<and> hd (pldBytes p) \<in> {0x01, 0x50, 0x51, 0x52, 0x53, 0x54, 0x55,
                                               0xA0, 0xA1, 0xA2, 0xA3, 0xA4})
                     (packets_of r) of
             None \<Rightarrow> Inr r
           | Some p \<Rightarrow> Inl (IOError_Problem p (the (retCodeDescr (hd (pldBytes p)))))))
   \<and> send pkg False respBytes \<noteq> Inl (IOError_Problem q d)
   \<and> dom retCodeDescr = {0x00, 0x01, 0x50, 0x51, 0x52, 0x53, 0x54, 0x55,
                           0xA0, 0xA1, 0xA2, 0xA3, 0xA4}
   \<and> retCodeDescr 0x52 = Some ''The operation could not be executed.''"
proof -
  let ?bad = "\<lambda>p. pldBytes p \<noteq> []
                        \<and> hd (pldBytes p) \<in> {0x01, 0x50, 0x51, 0x52, 0x53, 0x54, 0x55,
                                               0xA0, 0xA1, 0xA2, 0xA3, 0xA4 :: byte}"
  have gate: "send pkg True respBytes =
     (case send pkg False respBytes of
        Inl e \<Rightarrow> Inl e
      | Inr r \<Rightarrow>
          (case find ?bad (packets_of r) of
             None \<Rightarrow> Inr r
           | Some p \<Rightarrow> Inl (IOError_Problem p (the (retCodeDescr (hd (pldBytes p)))))))"
  proof (cases "py_split respBytes (take 6 (msgBytes pkg))")
    case (Inl e)
    then show ?thesis by (simp add: send_def Let_def)
  next
    case (Inr parts)
    note split = this
    show ?thesis
    proof (cases "mapM_err (\<lambda>part. PURPacket [] [] (take 6 (msgBytes pkg) @ part)) (drop 1 parts)")
      case (Inl e)
      then show ?thesis using split by (simp add: send_def Let_def)
    next
      case (Inr pkts)
      define r where "r = (if length pkts = 1 then Single (hd pkts) else Many pkts)"
      have pr: "packets_of r = pkts"
        unfolding r_def by (rule packets_of_result)
      have F: "send pkg False respBytes = Inr r"
        using split Inr by (simp add: send_def Let_def r_def)
      have T: "send pkg True respBytes =
                 (case mapM_err checkResp pkts of Inl e \<Rightarrow> Inl e | Inr _ \<Rightarrow> Inr r)"
        using split Inr by (auto simp: send_def Let_def r_def split: sum.splits)
      show ?thesis
        by (simp add: F T pr mapM_checkResp [of pkts] split: option.splits)
    qed
  qed
  have quiet: "send pkg False respBytes \<noteq> Inl (IOError_Problem q d)"
    using mapM_err_no_error [of "\<lambda>part. PURPacket [] [] (take 6 (msgBytes pkg) @ part)"
                                "IOError_Problem q d"]
          PURPacket_parse_no_IOError
    by (auto simp: send_def Let_def py_split_def split: sum.splits if_splits)
  have keys: "dom retCodeDescr = {0x00, 0x01, 0x50, 0x51, 0x52, 0x53, 0x54, 0x55,
                           0xA0, 0xA1, 0xA2, 0xA3, 0xA4}"
    unfolding retCodeDescr_def dom_map_of_conv_image_fst by simp
  have d52: "retCodeDescr 0x52 = Some ''The operation could not be executed.''"
    by (simp add: retCodeDescr_def)
  from gate quiet keys d52 show ?thesis by blast
qed

text \<open>
  C3 as it is written fails: \<open>0x01\<close> is outside \<open>0x50\<close> to \<open>0x55\<close> and \<open>0xA0\<close> to
  \<open>0xA4\<close>, and a response to Inventory-Single whose payload is the one byte \<open>0x01\<close>
  makes \<open>send\<close> with \<open>check\<close> raise.
\<close>

theorem send_pending_code_counterexample:
  "send \<lparr>cmdBytes = [0x50, 0x01], pldBytes = [],
         msgBytes = [0x52, 0x46, 0x45, 0x01, 0x50, 0x01, 0x02, 0x00, 0x04, 0x07]\<rparr>
        True [0x52, 0x46, 0x45, 0x01, 0x50, 0x01, 0x02, 0x01, 0x03, 0x01, 0x04, 0x04]
     = Inl (IOError_Problem
              \<lparr>cmdBytes = [0x50, 0x01], pldBytes = [0x01],
               msgBytes = [0x52, 0x46, 0x45, 0x01, 0x50, 0x01, 0x02, 0x01, 0x03, 0x01, 0x04, 0x04]\<rparr>
              ''The operation is pending, the result will be sent later on.'')
   \<and> (0x01 :: byte) \<noteq> 0
   \<and> (0x01 :: byte) \<notin> {0x50, 0x51, 0x52, 0x53, 0x54, 0x55, 0xA0, 0xA1, 0xA2, 0xA3, 0xA4}"
  by (simp add: send_def py_split_def PURPacket_def parseMsg_def RFE_def checkResp_def
                retCodeDescr_def Let_def)

theorem send_return_code_gating_witness:
  "send \<lparr>cmdBytes = [0x50, 0x01], pldBytes = [],
         msgBytes = [0x52, 0x46, 0x45, 0x01, 0x50, 0x01, 0x02, 0x00, 0x04, 0x07]\<rparr>
        False [0x52, 0x46, 0x45, 0x01, 0x50, 0x01, 0x02, 0x01, 0x03, 0x52, 0x04, 0x57]
     = Inr (Single \<lparr>cmdBytes = [0x50, 0x01], pldBytes = [0x52],
              msgBytes = [0x52, 0x46, 0x45, 0x01, 0x50, 0x01, 0x02, 0x01, 0x03, 0x52, 0x04, 0x57]\<rparr>)
   \<and> send \<lparr>cmdBytes = [0x50, 0x01], pldBytes = [],
         msgBytes = [0x52, 0x46, 0x45, 0x01, 0x50, 0x01, 0x02, 0x00, 0x04, 0x07]\<rparr>
        True [0x52, 0x46, 0x45, 0x01, 0x50, 0x01, 0x02, 0x01, 0x03, 0x52, 0x04, 0x57]
     = Inl (IOError_Problem
              \<lparr>cmdBytes = [0x50, 0x01], pldBytes = [0x52],
               msgBytes = [0x52, 0x46, 0x45, 0x01, 0x50, 0x01, 0x02, 0x01, 0x03, 0x52, 0x04, 0x57]\<rparr>
              ''The operation could not be executed.'')"
proof -
  have F: "send \<lparr>cmdBytes = [0x50, 0x01], pldBytes = [],
         msgBytes = [0x52, 0x46, 0x45, 0x01, 0x50, 0x01, 0x02, 0x00, 0x04, 0x07]\<rparr>
        False [0x52, 0x46, 0x45, 0x01, 0x50, 0x01, 0x02, 0x01, 0x03, 0x52, 0x04, 0x57]
     = Inr (Single \<lparr>cmdBytes = [0x50, 0x01], pldBytes = [0x52],
              msgBytes = [0x52, 0x46, 0x45, 0x01, 0x50, 0x01, 0x02, 0x01, 0x03, 0x52, 0x04, 0x57]\<rparr>)"
    by (simp add: send_def py_split_def PURPacket_def parseMsg_def RFE_def Let_def)
  from send_return_code_gating
         [of "\<lparr>cmdBytes = [0x50, 0x01], pldBytes = [],
               msgBytes = [0x52, 0x46, 0x45, 0x01, 0x50, 0x01, 0x02, 0x00, 0x04, 0x07]\<rparr>"
             "[0x52, 0x46, 0x45, 0x01, 0x50, 0x01, 0x02, 0x01, 0x03, 0x52, 0x04, 0x57]"]
  show ?thesis by (simp add: F)
qed

subsection \<open>Reading a parameter\<close>

text \<open>
  C4, as the code has it. When the packet for Get-Param with the address has been built
  and \<open>send\<close> with \<open>check\<close> returns one response packet whose payload is a return
  code, a length byte and value bytes, \<open>getParam\<close> returns the slice
  \<open>pldBytes[2:2+size]\<close>: the first \<open>size\<close> value bytes, or all of them when there are
  fewer than \<open>size\<close>. It does not raise in that case.
\<close>

theorem getParam_returns_slice:
  assumes "pack_H addr = Inr a"
    and "PURPacket [0x03, 0x31] a [] = Inr pkg"
    and "send pkg True respBytes = Inr (Single resp)"
    and "pldBytes resp = rc # len # vals"
  shows "getParam addr respBytes = Inr (take (unat len) vals)
         \<and> length (take (unat len) vals) = min (unat len) (length vals)
         \<and> (unat len \<le> length vals \<longrightarrow> length (take (unat len) vals) = unat len)
         \<and> (length vals < unat len \<longrightarrow> getParam addr respBytes = Inr vals)"
proof -
  have "getParam addr respBytes = Inr (take (unat len) vals)"
    using assms by (simp add: getParam_def Let_def)
  then show ?thesis by simp
qed

theorem getParam_returns_slice_witness:
  "pack_H 0x28 = Inr [0x00, 0x28]
   \<and> PURPacket [0x03, 0x31] [0x00, 0x28] [] =
       Inr \<lparr>cmdBytes = [0x03, 0x31], pldBytes = [0x00, 0x28],
            msgBytes = [0x52, 0x46, 0x45, 0x01, 0x03, 0x31, 0x02, 0x02, 0x03, 0x00, 0x28, 0x04, 0x4D]\<rparr>
   \<and> send \<lparr>cmdBytes = [0x03, 0x31], pldBytes = [0x00, 0x28],
            msgBytes = [0x52, 0x46, 0x45, 0x01, 0x03, 0x31, 0x02, 0x02, 0x03, 0x00, 0x28, 0x04, 0x4D]\<rparr>
        True [0x52, 0x46, 0x45, 0x01, 0x03, 0x31, 0x02, 0x04, 0x03, 0x00, 0x02, 0xAA, 0xBB, 0x04, 0x70]
       = Inr (Single \<lparr>cmdBytes = [0x03, 0x31], pldBytes = [0x00, 0x02, 0xAA, 0xBB],
            msgBytes = [0x52, 0x46, 0x45, 0x01, 0x03, 0x31, 0x02, 0x04, 0x03, 0x00, 0x02, 0xAA, 0xBB, 0x04, 0x70]\<rparr>)
   \<and> getParam 0x28
         [0x52, 0x46, 0x45, 0x01, 0x03, 0x31, 0x02, 0x04, 0x03, 0x00, 0x02, 0xAA, 0xBB, 0x04, 0x70]
       = Inr [0xAA, 0xBB]"
proof -
  have a: "pack_H 0x28 = Inr [0x00, 0x28]"
    by (simp add: pack_H_def)
  have b: "PURPacket [0x03, 0x31] [0x00, 0x28] [] =
       Inr \<lparr>cmdBytes = [0x03, 0x31], pldBytes = [0x00, 0x28],
            msgBytes = [0x52, 0x46, 0x45, 0x01, 0x03, 0x31, 0x02, 0x02, 0x03, 0x00, 0x28, 0x04, 0x4D]\<rparr>"
    by (simp add: PURPacket_def createMsg_def RFE_def)
  have c: "send \<lparr>cmdBytes = [0x03, 0x31], pldBytes = [0x00, 0x28],
            msgBytes = [0x52, 0x46, 0x45, 0x01, 0x03, 0x31, 0x02, 0x02, 0x03, 0x00, 0x28, 0x04, 0x4D]\<rparr>
        True [0x52, 0x46, 0x45, 0x01, 0x03, 0x31, 0x02, 0x04, 0x03, 0x00, 0x02, 0xAA, 0xBB, 0x04, 0x70]
       = Inr (Single \<lparr>cmdBytes = [0x03, 0x31], pldBytes = [0x00, 0x02, 0xAA, 0xBB],
            msgBytes = [0x52, 0x46, 0x45, 0x01, 0x03, 0x31, 0x02, 0x04, 0x03, 0x00, 0x02, 0xAA, 0xBB, 0x04, 0x70]\<rparr>)"
    by (simp add: send_def py_split_def PURPacket_def parseMsg_def RFE_def checkResp_def Let_def)
  from getParam_returns_slice [OF a b c, of "0x00" "0x02" "[0xAA, 0xBB]"] a b c
  show ?thesis by simp
qed

text \<open>
  C4 as it is written fails: the response to Get-Param below has the payload
  \<open>00 05 AA\<close>, a length byte of five with one value byte, and \<open>getParam\<close> returns the one
  byte.
\<close>

theorem getParam_short_value_counterexample:
  "parseMsg [0x52, 0x46, 0x45, 0x01, 0x03, 0x31, 0x02, 0x03, 0x03, 0x00, 0x05, 0xAA, 0x04, 0xCB]
     = Inr ([0x03, 0x31], [0x00, 0x05, 0xAA])
   \<and> getParam 0x28
        [0x52, 0x46, 0x45, 0x01, 0x03, 0x31, 0x02, 0x03, 0x03, 0x00, 0x05, 0xAA, 0x04, 0xCB]
     = Inr [0xAA]
   \<and> length [0xAA :: byte] < unat (0x05 :: byte)"
  by (simp add: getParam_def pack_H_def send_def py_split_def PURPacket_def createMsg_def
                parseMsg_def RFE_def checkResp_def Let_def)

subsection \<open>Tag reports\<close>

lemma parseTag_tagStruct:
  assumes "length tid \<le> 255"
  shows "parseTag (tagStruct (tid, q, i) @ rest) = Inr (tagEntry (tid, q, i), rest)"
proof -
  have n: "unat (of_nat (length tid) :: byte) = length tid"
    using assms by (simp add: unat_length_byte)
  show ?thesis
    by (simp add: parseTag_def tagStruct_def tagEntry_def Let_def n)
qed

lemma tagLoop_tagStructs:
  assumes "\<forall>t\<in>set ts. length (fst t) \<le> 255"
  shows "tagLoop (length ts) (concat (map tagStruct ts) @ rest) tags = Inr (tags @ map tagEntry ts)"
  using assms
proof (induction ts arbitrary: tags)
  case Nil
  show ?case by simp
next
  case (Cons t ts)
  obtain tid q i where t: "t = (tid, q, i)" by (cases t) auto
  have "length tid \<le> 255" using Cons.prems t by simp
  from parseTag_tagStruct [OF this, of q i "concat (map tagStruct ts) @ rest"]
  have "parseTag (concat (map tagStruct (t # ts)) @ rest)
          = Inr (tagEntry t, concat (map tagStruct ts) @ rest)"
    by (simp add: t)
  moreover have "tagLoop (length ts) (concat (map tagStruct ts) @ rest) (tags @ [tagEntry t])
          = Inr ((tags @ [tagEntry t]) @ map tagEntry ts)"
    using Cons.prems by (intro Cons.IH) simp
  ultimately show ?case by simp
qed

lemma pkgLoop_inventory:
  assumes "map pldBytes msgs = map inventoryPayload specs"
    and "\<forall>s\<in>set specs. length (snd (snd s)) \<le> 255
                        \<and> (\<forall>t\<in>set (snd (snd s)). length (fst t) \<le> 255)"
  shows "pkgLoop msgs (tags, c, n) =
           Inr (tags @ concat (map (\<lambda>s. map tagEntry (snd (snd s))) specs),
                c + sum_list (map (\<lambda>m. unat (pldBytes m ! 2)) msgs),
                if msgs = [] then n else unat (pldBytes (last msgs) ! 1))"
  using assms
proof (induction msgs arbitrary: specs tags c n)
  case Nil
  then show ?case by simp
next
  case (Cons m msgs)
  from Cons.prems(1) obtain s specs' where specs: "specs = s # specs'"
    and pm: "pldBytes m = inventoryPayload s"
    and rest: "map pldBytes msgs = map inventoryPayload specs'"
    by (cases specs) auto
  obtain rc idc ts where s: "s = (rc, idc, ts)" by (cases s) auto
  have lts: "length ts \<le> 255" and ltid: "\<forall>t\<in>set ts. length (fst t) \<le> 255"
    using Cons.prems(2) specs s by auto
  have cnt: "unat (of_nat (length ts) :: byte) = length ts"
    using lts by (simp add: unat_length_byte)
  have pld: "pldBytes m = rc # idc # of_nat (length ts) # concat (map tagStruct ts)"
    using pm s by (simp add: inventoryPayload_def)
  have loop: "tagLoop (length ts) (concat (map tagStruct ts)) tags = Inr (tags @ map tagEntry ts)"
    using tagLoop_tagStructs [OF ltid, of "[]" tags] by simp
  have wf': "\<forall>s\<in>set specs'. length (snd (snd s)) \<le> 255
                        \<and> (\<forall>t\<in>set (snd (snd s)). length (fst t) \<le> 255)"
    using Cons.prems(2) specs by simp
  have step: "pkgLoop (m # msgs) (tags, c, n) =
                pkgLoop msgs (tags @ map tagEntry ts, c + length ts, unat idc)"
    by (simp add: pld cnt loop)
  show ?case
    unfolding step Cons.IH [OF rest wf']
    by (simp add: specs s pld cnt)
qed

text \<open>
  C2, as the code has it. For a list of inventory messages that is not empty and whose
  payloads are well-formed (a return code, the total count, the count of this packet
  and that many well-formed tag structures, with counts and identifier lengths that fit
  a byte), \<open>parseTagreports\<close> raises the \<open>IOError\<close> with the collected and the expected
  count exactly when the sum of the counts of the packets differs from the total count
  of the last message, and otherwise returns the entries of all tag structures in the
  order of the input. A single packet is treated as the list of that packet.
\<close>

theorem parseTagreports_accounting:
  assumes "msgs \<noteq> []"
    and "map pldBytes msgs = map inventoryPayload specs"
    and "\<forall>s\<in>set specs. length (snd (snd s)) \<le> 255
                        \<and> (\<forall>t\<in>set (snd (snd s)). length (fst t) \<le> 255)"
  shows "parseTagreports (Many msgs) =
           (if sum_list (map (\<lambda>m. unat (pldBytes m ! 2)) msgs) \<noteq> unat (pldBytes (last msgs) ! 1)
            then Inl (IOError_OnlyPackets (sum_list (map (\<lambda>m. unat (pldBytes m ! 2)) msgs))
                                          (unat (pldBytes (last msgs) ! 1)))
            else Inr (concat (map (\<lambda>s. map tagEntry (snd (snd s))) specs)))
         \<and> parseTagreports (Single (hd msgs)) = parseTagreports (Many [hd msgs])"
  using assms(1) pkgLoop_inventory [OF assms(2,3), of "[]" 0 0]
  by (simp add: parseTagreports_def)

text \<open>
  The two cases of the specification: a message with total count 2, packet count 2 and
  two tag structures gives two entries; the same with total count 3 raises for 2
  collected out of 3.
\<close>

theorem parseTagreports_accounting_witness:
  "parseTagreports (Many [\<lparr>cmdBytes = [0x50, 0x01],
        pldBytes = [0x00, 0x02, 0x02, 0x01, 0x02, 0xE2, 0x00, 0x02, 0x05, 0x06,
                    0x01, 0x02, 0xE2, 0x01, 0x02, 0x07, 0x08],
        msgBytes = [0x52, 0x46, 0x45, 0x01, 0x50, 0x01, 0x02, 0x11, 0x03, 0x00, 0x02, 0x02,
                    0x01, 0x02, 0xE2, 0x00, 0x02, 0x05, 0x06,
                    0x01, 0x02, 0xE2, 0x01, 0x02, 0x07, 0x08, 0x04, 0x18]\<rparr>])
     = Inr [\<lparr>tagID = ''E200'', rssiI = 0x06, rssiQ = 0x05\<rparr>,
            \<lparr>tagID = ''E201'', rssiI = 0x08, rssiQ = 0x07\<rparr>]
   \<and> parseTagreports (Many [\<lparr>cmdBytes = [0x50, 0x01],
        pldBytes = [0x00, 0x03, 0x02, 0x01, 0x02, 0xE2, 0x00, 0x02, 0x05, 0x06,
                    0x01, 0x02, 0xE2, 0x01, 0x02, 0x07, 0x08],
        msgBytes = [0x52, 0x46, 0x45, 0x01, 0x50, 0x01, 0x02, 0x11, 0x03, 0x00, 0x03, 0x02,
                    0x01, 0x02, 0xE2, 0x00, 0x02, 0x05, 0x06,
                    0x01, 0x02, 0xE2, 0x01, 0x02, 0x07, 0x08, 0x04, 0x19]\<rparr>])
     = Inl (IOError_OnlyPackets 2 3)"
proof -
  let ?m2 = "\<lparr>cmdBytes = [0x50, 0x01],
        pldBytes = [0x00, 0x02, 0x02, 0x01, 0x02, 0xE2, 0x00, 0x02, 0x05, 0x06,
                    0x01, 0x02, 0xE2, 0x01, 0x02, 0x07, 0x08],
        msgBytes = [0x52, 0x46, 0x45, 0x01, 0x50, 0x01, 0x02, 0x11, 0x03, 0x00, 0x02, 0x02,
                    0x01, 0x02, 0xE2, 0x00, 0x02, 0x05, 0x06,
                    0x01, 0x02, 0xE2, 0x01, 0x02, 0x07, 0x08, 0x04, 0x18 :: byte]\<rparr>"
  let ?m3 = "\<lparr>cmdBytes = [0x50, 0x01],
        pldBytes = [0x00, 0x03, 0x02, 0x01, 0x02, 0xE2, 0x00, 0x02, 0x05, 0x06,
                    0x01, 0x02, 0xE2, 0x01, 0x02, 0x07, 0x08],
        msgBytes = [0x52, 0x46, 0x45, 0x01, 0x50, 0x01, 0x02, 0x11, 0x03, 0x00, 0x03, 0x02,
                    0x01, 0x02, 0xE2, 0x00, 0x02, 0x05, 0x06,
                    0x01, 0x02, 0xE2, 0x01, 0x02, 0x07, 0x08, 0x04, 0x19 :: byte]\<rparr>"
  let ?ts = "[([0xE2, 0x00], 0x05, 0x06), ([0xE2, 0x01], 0x07, 0x08)] :: (bytes \<times> byte \<times> byte) list"
  have two: "parseTagreports (Many [?m2])
     = Inr [\<lparr>tagID = ''E200'', rssiI = 0x06, rssiQ = 0x05\<rparr>,
            \<lparr>tagID = ''E201'', rssiI = 0x08, rssiQ = 0x07\<rparr>]"
    using parseTagreports_accounting [of "[?m2]" "[(0x00, 0x02, ?ts)]"]
    by (simp add: inventoryPayload_def tagStruct_def tagEntry_def hex02X_def)
  have three: "parseTagreports (Many [?m3]) = Inl (IOError_OnlyPackets 2 3)"
    using parseTagreports_accounting [of "[?m3]" "[(0x00, 0x03, ?ts)]"]
    by (simp add: inventoryPayload_def tagStruct_def tagEntry_def hex02X_def)
  from two three show ?thesis by simp
qed

text \<open>
  C2 as it is written fails: of these two well-formed messages the first declares a
  total of one tag and the second a total of two; each holds one tag structure. The sum
  of the packet counts, 2, differs from the total of the first message, 1, and
  \<open>parseTagreports\<close> returns the two entries.
\<close>

theorem parseTagreports_first_total_counterexample:
  "parseTagreports (Many
      [\<lparr>cmdBytes = [0x50, 0x01],
        pldBytes = [0x00, 0x01, 0x01, 0x01, 0x02, 0xE2, 0x00, 0x02, 0x05, 0x06],
        msgBytes = [0x52, 0x46, 0x45, 0x01, 0x50, 0x01, 0x02, 0x0A, 0x03, 0x00, 0x01, 0x01,
                    0x01, 0x02, 0xE2, 0x00, 0x02, 0x05, 0x06, 0x04, 0xEE]\<rparr>,
       \<lparr>cmdBytes = [0x50, 0x01],
        pldBytes = [0x00, 0x02, 0x01, 0x01, 0x02, 0xE2, 0x01, 0x02, 0x07, 0x08],
        msgBytes = [0x52, 0x46, 0x45, 0x01, 0x50, 0x01, 0x02, 0x0A, 0x03, 0x00, 0x02, 0x01,
                    0x01, 0x02, 0xE2, 0x01, 0x02, 0x07, 0x08, 0x04, 0xE0]\<rparr>])
     = Inr [\<lparr>tagID = ''E200'', rssiI = 0x06, rssiQ = 0x05\<rparr>,
            \<lparr>tagID = ''E201'', rssiI = 0x08, rssiQ = 0x07\<rparr>]
   \<and> unat ([0x00, 0x01, 0x01, 0x01, 0x02, 0xE2, 0x00, 0x02, 0x05, 0x06 :: byte] ! 2)
       + unat ([0x00, 0x02, 0x01, 0x01, 0x02, 0xE2, 0x01, 0x02, 0x07, 0x08 :: byte] ! 2)
       \<noteq> unat ([0x00, 0x01, 0x01, 0x01, 0x02, 0xE2, 0x00, 0x02, 0x05, 0x06 :: byte] ! 1)"
  by (simp add: parseTagreports_def parseTag_def hex02X_def Let_def)

subsection \<open>Splitting the response\<close>

lemma split_bytes_not_Nil: "split_bytes sep xs \<noteq> []"
  by (induction sep xs rule: split_bytes.induct) (auto split: list.splits)

lemma split_bytes_sep_first:
  assumes "sep \<noteq> []"
  shows "split_bytes sep (sep @ rest) = [] # split_bytes sep rest"
proof -
  obtain s ss where sep: "sep = s # ss" using assms by (cases sep) auto
  have "split_bytes sep (s # (ss @ rest)) = [] # split_bytes sep (drop (length sep) (s # (ss @ rest)))"
    unfolding split_bytes.simps using sep by simp
  then show ?thesis by (simp add: sep)
qed

text \<open>
  Bytes in which no occurrence of the separator begins stay in the first part of what
  follows them.
\<close>

lemma split_bytes_skip:
  assumes "\<forall>i<length p. \<not> prefix sep (drop i (p @ rest))"
  shows "split_bytes sep (p @ rest) =
           (p @ hd (split_bytes sep rest)) # tl (split_bytes sep rest)"
  using assms
proof (induction p)
  case Nil
  show ?case using split_bytes_not_Nil [of sep rest] by simp
next
  case (Cons x p)
  have no: "\<not> prefix sep (x # p @ rest)"
    using Cons.prems by (auto dest: spec [of _ 0])
  have "\<forall>i<length p. \<not> prefix sep (drop i (p @ rest))"
  proof (intro allI impI)
    fix i assume "i < length p"
    then have "\<not> prefix sep (drop (Suc i) ((x # p) @ rest))"
      using Cons.prems by (auto simp del: drop_Suc_Cons append_Cons)
    then show "\<not> prefix sep (drop i (p @ rest))" by simp
  qed
  from Cons.IH [OF this] no show ?case
    by simp
qed

lemma frame_offsets_shift: "frame_offsets k fs = map ((+) k) (frame_offsets 0 fs)"
proof (induction fs arbitrary: k)
  case Nil
  show ?case by simp
next
  case (Cons f fs)
  show ?case
    using Cons.IH [of "k + length f"] Cons.IH [of "length f"]
    by (simp add: add.assoc)
qed

text \<open>
  When every frame begins with the separator and the separator begins nowhere else in
  the concatenation, \<open>split\<close> returns the empty part before the first frame and then,
  for each frame, what follows the separator in it.
\<close>

lemma split_bytes_frames:
  assumes "sep \<noteq> []"
    and "\<forall>f\<in>set fs. prefix sep f"
    and "\<forall>i<length (concat fs). prefix sep (drop i (concat fs)) \<longrightarrow> i \<in> set (frame_offsets 0 fs)"
  shows "split_bytes sep (concat fs) = [] # map (drop (length sep)) fs"
  using assms(2,3)
proof (induction fs)
  case Nil
  show ?case by simp
next
  case (Cons f fs)
  obtain p where f: "f = sep @ p"
    using Cons.prems(1) by (auto simp: prefix_def)
  have seplen: "0 < length sep" using assms(1) by simp
  have offs: "set (frame_offsets 0 (f # fs)) = insert 0 ((+) (length f) ` set (frame_offsets 0 fs))"
    using frame_offsets_shift [of "length f" fs] by simp
  have inner: "\<forall>i<length p. \<not> prefix sep (drop i (p @ concat fs))"
  proof (intro allI impI notI)
    fix i assume i: "i < length p" and pre: "prefix sep (drop i (p @ concat fs))"
    have "drop (length sep + i) (concat (f # fs)) = drop i (p @ concat fs)"
      by (simp add: f add.commute [of "length sep" i] drop_drop [symmetric] del: drop_drop)
    moreover have "length sep + i < length (concat (f # fs))"
      using i by (simp add: f)
    ultimately have "length sep + i \<in> set (frame_offsets 0 (f # fs))"
      using Cons.prems(2) pre by metis
    then show False
      unfolding offs using i seplen by (auto simp: f)
  qed
  have tail: "\<forall>i<length (concat fs). prefix sep (drop i (concat fs)) \<longrightarrow> i \<in> set (frame_offsets 0 fs)"
  proof (intro allI impI)
    fix i assume i: "i < length (concat fs)" and pre: "prefix sep (drop i (concat fs))"
    have "drop (length f + i) (concat (f # fs)) = drop i (concat fs)"
      by simp
    moreover have "length f + i < length (concat (f # fs))"
      using i by simp
    ultimately have "length f + i \<in> set (frame_offsets 0 (f # fs))"
      using Cons.prems(2) pre by metis
    then show "i \<in> set (frame_offsets 0 fs)"
      unfolding offs using seplen by (auto simp: f)
  qed
  have IH: "split_bytes sep (concat fs) = [] # map (drop (length sep)) fs"
    using Cons.IH Cons.prems(1) tail by simp
  have "split_bytes sep (concat (f # fs)) = [] # split_bytes sep (p @ concat fs)"
    using split_bytes_sep_first [OF assms(1), of "p @ concat fs"] by (simp add: f)
  also have "split_bytes sep (p @ concat fs) = p # map (drop (length sep)) fs"
    using split_bytes_skip [OF inner] by (simp add: IH)
  finally show ?case by (simp add: f)
qed

lemma mapM_PURPacket_frames:
  assumes "map parseMsg fs = map Inr decoded"
    and "\<forall>f\<in>set fs. f \<noteq> []"
  shows "mapM_err (\<lambda>f. PURPacket [] [] f) fs =
           Inr (map (\<lambda>(f, c, p). \<lparr>cmdBytes = c, pldBytes = p, msgBytes = f\<rparr>) (zip fs decoded))"
  using assms
proof (induction fs arbitrary: decoded)
  case Nil
  then show ?case by simp
next
  case (Cons f fs)
  from Cons.prems(1) obtain d ds where decoded: "decoded = d # ds"
    and pf: "parseMsg f = Inr d" and rest: "map parseMsg fs = map Inr ds"
    by (cases decoded) auto
  obtain c p where d: "d = (c, p)" by (cases d) auto
  have "PURPacket [] [] f = Inr \<lparr>cmdBytes = c, pldBytes = p, msgBytes = f\<rparr>"
    using Cons.prems(2) pf d by (simp add: PURPacket_def)
  moreover have "mapM_err (\<lambda>f. PURPacket [] [] f) fs =
           Inr (map (\<lambda>(f, c, p). \<lparr>cmdBytes = c, pldBytes = p, msgBytes = f\<rparr>) (zip fs ds))"
    using Cons.IH [OF rest] Cons.prems(2) by simp
  ultimately show ?case by (simp add: decoded d)
qed

lemma mapM_err_map: "mapM_err f (map g xs) = mapM_err (\<lambda>x. f (g x)) xs"
  by (induction xs) (simp_all split: sum.splits)

lemma mapM_err_cong:
  "(\<And>x. x \<in> set xs \<Longrightarrow> f x = g x) \<Longrightarrow> mapM_err f xs = mapM_err g xs"
  by (induction xs) (simp_all split: sum.splits)

text \<open>
  C7. Let the response buffer be the concatenation of one or more frames, each of them
  beginning with the first six bytes of the sent message and accepted by \<open>parseMsg\<close>,
  and let those six bytes begin nowhere in the buffer but at the starts of the frames.
  Then \<open>send\<close> returns the packets of exactly those frames, each with the command and
  payload \<open>parseMsg\<close> gives for it, in the order of the buffer: the packet itself when
  there is one frame, the list when there are more. With \<open>check\<close> set this holds when
  no payload begins with a return code on which \<open>checkResp\<close> raises.
\<close>

theorem send_splits_frames:
  assumes "6 \<le> length (msgBytes pkg)"
    and "frames \<noteq> []"
    and "\<forall>f\<in>set frames. prefix (take 6 (msgBytes pkg)) f"
    and "map parseMsg frames = map Inr decoded"
    and "only_at_frame_starts (take 6 (msgBytes pkg)) frames"
    and "check \<longrightarrow>
           (\<forall>d\<in>set decoded. snd d = [] \<or>
              hd (snd d) \<notin> {0x01, 0x50, 0x51, 0x52, 0x53, 0x54, 0x55, 0xA0, 0xA1, 0xA2, 0xA3, 0xA4})"
  shows "send pkg check (concat frames) =
           Inr (if length frames = 1
                then Single \<lparr>cmdBytes = fst (hd decoded), pldBytes = snd (hd decoded),
                             msgBytes = hd frames\<rparr>
                else Many (map (\<lambda>(f, c, p). \<lparr>cmdBytes = c, pldBytes = p, msgBytes = f\<rparr>)
                             (zip frames decoded)))"
proof -
  define start where "start = take 6 (msgBytes pkg)"
  let ?pkts = "map (\<lambda>(f, c, p). \<lparr>cmdBytes = c, pldBytes = p, msgBytes = f\<rparr>) (zip frames decoded)"
  have ne: "start \<noteq> []" using assms(1) by (auto simp: start_def)
  have pre: "\<forall>f\<in>set frames. prefix start f"
    using assms(3) by (simp add: start_def)
  have occ: "\<forall>i<length (concat frames). prefix start (drop i (concat frames))
               \<longrightarrow> i \<in> set (frame_offsets 0 frames)"
    using assms(5) unfolding only_at_frame_starts_def list_all_iff start_def by simp
  have parts: "py_split (concat frames) start = Inr ([] # map (drop (length start)) frames)"
    using split_bytes_frames [OF ne pre occ] ne by (simp add: py_split_def)
  have glue: "\<And>f. f \<in> set frames \<Longrightarrow> start @ drop (length start) f = f"
    using pre by (auto simp: prefix_def)
  have fne: "\<forall>f\<in>set frames. f \<noteq> []"
    using pre ne by auto
  have "mapM_err (\<lambda>part. PURPacket [] [] (start @ part)) (map (drop (length start)) frames)
          = mapM_err (\<lambda>f. PURPacket [] [] f) frames"
    unfolding mapM_err_map by (rule mapM_err_cong) (simp only: glue)
  then have pk: "mapM_err (\<lambda>part. PURPacket [] [] (start @ part))
                   (drop 1 ([] # map (drop (length start)) frames)) = Inr ?pkts"
    using mapM_PURPacket_frames [OF assms(4) fne] by simp
  have len: "length decoded = length frames"
    using assms(4) by (metis length_map)
  have quiet: "(if check then mapM_err checkResp ?pkts else Inr []) = Inr (map (\<lambda>_. ()) (if check then ?pkts else []))"
  proof (cases check)
    case False
    then show ?thesis by simp
  next
    case True
    have "\<forall>p\<in>set ?pkts. \<not> (pldBytes p \<noteq> []
            \<and> hd (pldBytes p) \<in> {0x01, 0x50, 0x51, 0x52, 0x53, 0x54, 0x55, 0xA0, 0xA1, 0xA2, 0xA3, 0xA4})"
    proof
      fix p assume "p \<in> set ?pkts"
      then obtain f c q where "(f, c, q) \<in> set (zip frames decoded)" and p: "pldBytes p = q"
        by auto
      then have "(c, q) \<in> set decoded" by (auto dest: set_zip_rightD)
      with assms(6) True have "q = [] \<or>
          hd q \<notin> {0x01, 0x50, 0x51, 0x52, 0x53, 0x54, 0x55, 0xA0, 0xA1, 0xA2, 0xA3, 0xA4}"
        by fastforce
      then show "\<not> (pldBytes p \<noteq> []
            \<and> hd (pldBytes p) \<in> {0x01, 0x50, 0x51, 0x52, 0x53, 0x54, 0x55, 0xA0, 0xA1, 0xA2, 0xA3, 0xA4})"
        unfolding p by blast
    qed
    then have "find (\<lambda>p. pldBytes p \<noteq> []
            \<and> hd (pldBytes p) \<in> {0x01, 0x50, 0x51, 0x52, 0x53, 0x54, 0x55, 0xA0, 0xA1, 0xA2, 0xA3, 0xA4}) ?pkts = None"
      unfolding find_None_iff by blast
    then show ?thesis using True by (simp add: mapM_checkResp)
  qed
  have res: "send pkg check (concat frames) =
               Inr (if length ?pkts = 1 then Single (hd ?pkts) else Many ?pkts)"
    unfolding send_def Let_def start_def [symmetric] parts sum.case pk quiet by simp
  show ?thesis
  proof (cases "length frames = 1")
    case True
    then obtain f where f: "frames = [f]" by (cases frames) auto
    with len obtain d where d: "decoded = [d]" by (cases decoded) auto
    show ?thesis unfolding res by (cases d) (simp add: f d)
  next
    case False
    then show ?thesis unfolding res using len by simp
  qed
qed

text \<open>
  The case of the specification: two response frames for Inventory-Single, \<open>50 01\<close>,
  one after the other, give the list of their two packets, here with \<open>check\<close> set;
  the first frame alone gives its packet.
\<close>

theorem send_splits_frames_witness:
  "send \<lparr>cmdBytes = [0x50, 0x01], pldBytes = [],
         msgBytes = [0x52, 0x46, 0x45, 0x01, 0x50, 0x01, 0x02, 0x00, 0x04, 0x07]\<rparr> True
     ([0x52, 0x46, 0x45, 0x01, 0x50, 0x01, 0x02, 0x0A, 0x03, 0x00, 0x02, 0x01,
       0x01, 0x02, 0xE2, 0x00, 0x02, 0x05, 0x06, 0x04, 0xED]
      @ [0x52, 0x46, 0x45, 0x01, 0x50, 0x01, 0x02, 0x0A, 0x03, 0x00, 0x02, 0x01,
         0x01, 0x02, 0xE2, 0x01, 0x02, 0x07, 0x08, 0x04, 0xE0])
   = Inr (Many
       [\<lparr>cmdBytes = [0x50, 0x01],
         pldBytes = [0x00, 0x02, 0x01, 0x01, 0x02, 0xE2, 0x00, 0x02, 0x05, 0x06],
         msgBytes = [0x52, 0x46, 0x45, 0x01, 0x50, 0x01, 0x02, 0x0A, 0x03, 0x00, 0x02, 0x01,
                     0x01, 0x02, 0xE2, 0x00, 0x02, 0x05, 0x06, 0x04, 0xED]\<rparr>,
        \<lparr>cmdBytes = [0x50, 0x01],
         pldBytes = [0x00, 0x02, 0x01, 0x01, 0x02, 0xE2, 0x01, 0x02, 0x07, 0x08],
         msgBytes = [0x52, 0x46, 0x45, 0x01, 0x50, 0x01, 0x02, 0x0A, 0x03, 0x00, 0x02, 0x01,
                     0x01, 0x02, 0xE2, 0x01, 0x02, 0x07, 0x08, 0x04, 0xE0]\<rparr>])
   \<and> send \<lparr>cmdBytes = [0x50, 0x01], pldBytes = [],
         msgBytes = [0x52, 0x46, 0x45, 0x01, 0x50, 0x01, 0x02, 0x00, 0x04, 0x07]\<rparr> False
     [0x52, 0x46, 0x45, 0x01, 0x50, 0x01, 0x02, 0x0A, 0x03, 0x00, 0x02, 0x01,
      0x01, 0x02, 0xE2, 0x00, 0x02, 0x05, 0x06, 0x04, 0xED]
   = Inr (Single
        \<lparr>cmdBytes = [0x50, 0x01],
         pldBytes = [0x00, 0x02, 0x01, 0x01, 0x02, 0xE2, 0x00, 0x02, 0x05, 0x06],
         msgBytes = [0x52, 0x46, 0x45, 0x01, 0x50, 0x01, 0x02, 0x0A, 0x03, 0x00, 0x02, 0x01,
                     0x01, 0x02, 0xE2, 0x00, 0x02, 0x05, 0x06, 0x04, 0xED]\<rparr>)"
proof -
  let ?pkg = "\<lparr>cmdBytes = [0x50, 0x01], pldBytes = [],
         msgBytes = [0x52, 0x46, 0x45, 0x01, 0x50, 0x01, 0x02, 0x00, 0x04, 0x07 :: byte]\<rparr>"
  let ?f1 = "[0x52, 0x46, 0x45, 0x01, 0x50, 0x01, 0x02, 0x0A, 0x03, 0x00, 0x02, 0x01,
       0x01, 0x02, 0xE2, 0x00, 0x02, 0x05, 0x06, 0x04, 0xED :: byte]"
  let ?f2 = "[0x52, 0x46, 0x45, 0x01, 0x50, 0x01, 0x02, 0x0A, 0x03, 0x00, 0x02, 0x01,
         0x01, 0x02, 0xE2, 0x01, 0x02, 0x07, 0x08, 0x04, 0xE0 :: byte]"
  let ?d1 = "([0x50, 0x01], [0x00, 0x02, 0x01, 0x01, 0x02, 0xE2, 0x00, 0x02, 0x05, 0x06]) :: bytes \<times> bytes"
  let ?d2 = "([0x50, 0x01], [0x00, 0x02, 0x01, 0x01, 0x02, 0xE2, 0x01, 0x02, 0x07, 0x08]) :: bytes \<times> bytes"
  have len: "6 \<le> length (msgBytes ?pkg)" by simp
  have p1: "parseMsg ?f1 = Inr ?d1" by (simp add: parseMsg_def RFE_def)
  have p2: "parseMsg ?f2 = Inr ?d2" by (simp add: parseMsg_def RFE_def)
  have two: "send ?pkg True (concat [?f1, ?f2]) =
               Inr (Many [\<lparr>cmdBytes = fst ?d1, pldBytes = snd ?d1, msgBytes = ?f1\<rparr>,
                          \<lparr>cmdBytes = fst ?d2, pldBytes = snd ?d2, msgBytes = ?f2\<rparr>])"
  proof -
    have ne: "[?f1, ?f2] \<noteq> []" by simp
    have pre: "\<forall>f\<in>set [?f1, ?f2]. prefix (take 6 (msgBytes ?pkg)) f" by simp
    have dec: "map parseMsg [?f1, ?f2] = map Inr [?d1, ?d2]" using p1 p2 by simp
    have occ: "only_at_frame_starts (take 6 (msgBytes ?pkg)) [?f1, ?f2]"
      by (simp add: only_at_frame_starts_def upt_rec)
    have ok: "True \<longrightarrow> (\<forall>d\<in>set [?d1, ?d2]. snd d = [] \<or>
              hd (snd d) \<notin> {0x01, 0x50, 0x51, 0x52, 0x53, 0x54, 0x55, 0xA0, 0xA1, 0xA2, 0xA3, 0xA4})"
      by simp
    from send_splits_frames [OF len ne pre dec occ ok] show ?thesis by simp
  qed
  have one: "send ?pkg False (concat [?f1]) =
               Inr (Single \<lparr>cmdBytes = fst ?d1, pldBytes = snd ?d1, msgBytes = ?f1\<rparr>)"
  proof -
    have ne: "[?f1] \<noteq> []" by simp
    have pre: "\<forall>f\<in>set [?f1]. prefix (take 6 (msgBytes ?pkg)) f" by simp
    have dec: "map parseMsg [?f1] = map Inr [?d1]" using p1 by simp
    have occ: "only_at_frame_starts (take 6 (msgBytes ?pkg)) [?f1]"
      by (simp add: only_at_frame_starts_def upt_rec)
    have ok: "False \<longrightarrow> (\<forall>d\<in>set [?d1]. snd d = [] \<or>
              hd (snd d) \<notin> {0x01, 0x50, 0x51, 0x52, 0x53, 0x54, 0x55, 0xA0, 0xA1, 0xA2, 0xA3, 0xA4})"
      by simp
    from send_splits_frames [OF len ne pre dec occ ok] show ?thesis by simp
  qed
  from two one show ?thesis by simp
qed

end
